theory Spec2Isabelle
  imports Main "HOL-Library.Sublist"
begin

section \<open>Data model\<close>

text \<open>
  Go strings are byte sequences, so a Go \<^verbatim>\<open>string\<close> is a \<^typ>\<open>string\<close> (a list of
  8-bit characters); a byte outside ASCII is written \<open>CHR 0x..\<close>. A nil slice and an
  empty slice are both the empty list: the program only takes their length and ranges
  over them.
\<close>

record rssItem =
  Title :: string
  Link :: string
  PubDate :: string

record rssChannel =
  Items :: "rssItem list"

record rssFeed =
  Channel :: rssChannel

record feedSource =
  name :: string
  urls :: "string list"

definition maxItemsPerFeed :: int where
  "maxItemsPerFeed = 5"

definition cyclingFeeds :: "feedSource list" where
  "cyclingFeeds =
     [\<lparr>name = ''L'' @ [CHR 0x27, CHR 0xC3, CHR 0x89] @ ''quipe (Cyclisme)'',
       urls = [''https://dwh.lequipe.fr/api/edito/rss?path=/Cyclisme/'']\<rparr>,
      \<lparr>name = ''DirectVelo'',
       urls = [''https://feeds.feedburner.com/ActualitsDirectvelo'']\<rparr>]"

definition transferKeywords :: "string list" where
  "transferKeywords =
     [''transfert'', ''transfer'', ''mutation'', ''mercato'', ''signe'', ''signature'',
      ''recrut'', ''rejoint'', ''quitte'', ''engage'', ''arrive'', ''contrat'', ''renforce'']"

section \<open>Item Filter\<close>

text \<open>
  \<^verbatim>\<open>strings.Contains(s, substr)\<close>: \<open>substr\<close> occurs in \<open>s\<close> as a contiguous run of
  bytes (the empty string occurs everywhere).
\<close>

fun Contains :: "string \<Rightarrow> string \<Rightarrow> bool" where
  "Contains [] substr = (substr = [])"
| "Contains (c # s) substr = (prefix substr (c # s) \<or> Contains s substr)"

text \<open>
  \<^verbatim>\<open>strings.ToLower\<close> is the Go library's Unicode lower-casing; the program only calls
  it. Every function that reaches it takes it as the parameter \<open>lower\<close>, and every
  theorem holds for any such function. \<open>toLowerASCII\<close> is what the library computes on
  a string whose bytes are all ASCII, and serves as the concrete instance.
\<close>

definition toLowerASCII :: "string \<Rightarrow> string" where
  "toLowerASCII s =
     map (\<lambda>c. if (65::nat) \<le> of_char c \<and> of_char c \<le> (90::nat)
              then char_of (of_char c + (32::nat)) else c) s"

text \<open>The inner loop of \<^verbatim>\<open>filterTransferItems\<close>: the first keyword found ends it.\<close>

fun matchesKeyword :: "string \<Rightarrow> string list \<Rightarrow> bool" where
  "matchesKeyword titleLower [] = False"
| "matchesKeyword titleLower (kw # kws) =
     (if Contains titleLower kw then True else matchesKeyword titleLower kws)"

text \<open>The outer loop, with the slice \<^verbatim>\<open>filtered\<close> as accumulator.\<close>

fun filterTransferItems_loop ::
  "(string \<Rightarrow> string) \<Rightarrow> rssItem list \<Rightarrow> rssItem list \<Rightarrow> rssItem list" where
  "filterTransferItems_loop lower [] filtered = filtered"
| "filterTransferItems_loop lower (it # items) filtered =
     filterTransferItems_loop lower items
       (if matchesKeyword (lower (Title it)) transferKeywords
        then filtered @ [it] else filtered)"

definition filterTransferItems :: "(string \<Rightarrow> string) \<Rightarrow> rssItem list \<Rightarrow> rssItem list" where
  "filterTransferItems lower items =
     (let filtered = filterTransferItems_loop lower items []
      in if length filtered = 0 then items else filtered)"

section \<open>The environment: network, log, panics\<close>

text \<open>
  What the program cannot decide itself is the outcome of one call of
  \<^verbatim>\<open>fetchRSSItems\<close>: whether \<^verbatim>\<open>http.NewRequestWithContext\<close> fails, whether
  \<^verbatim>\<open>client.Do\<close> fails (transport failure, timeout, cancelled context), and otherwise the
  status code of the response and the result of decoding its body (\<open>None\<close> when
  \<^verbatim>\<open>xml.Decoder.Decode\<close> returns an error).
\<close>

datatype httpOutcome =
    NewRequestFails
  | DoFails
  | Response int "rssFeed option"

text \<open>
  The network answers a request knowing the URLs requested before it, in order: the same
  URL may answer differently the second time. Execution is sequential, so every run of
  the program is the run against one such function.
\<close>

type_synonym network = "string list \<Rightarrow> string \<Rightarrow> httpOutcome"

datatype fetchError =
    RequestError
  | TransportError
  | StatusError int
  | DecodeError
  | NoWorkingURL "string list"

text \<open>The three \<^verbatim>\<open>log.Printf\<close> calls of the feed pipeline, with their arguments.\<close>

datatype logEntry =
    FeedAttemptFailed string fetchError
  | SkipFeed string fetchError
  | FallbackWarning

record world =
  fetched :: "string list"
  logged :: "logEntry list"

definition logPrintf :: "logEntry \<Rightarrow> world \<Rightarrow> world" where
  "logPrintf e w = w\<lparr>logged := logged w @ [e]\<rparr>"

text \<open>A call either returns its Go result tuple or panics (a slice bound out of range).\<close>

datatype 'a outcome = Returns 'a | Panics

section \<open>Feed Fetcher\<close>

text \<open>
  The Go result \<^verbatim>\<open>([]rssItem, error)\<close> is a pair whose second component is \<open>None\<close> for
  a nil error. \<^verbatim>\<open>items[:limit]\<close> is reached only when \<^verbatim>\<open>len(items) > limit\<close>, and
  panics there exactly when \<^verbatim>\<open>limit\<close> is negative.
\<close>

definition fetchRSSItems ::
  "network \<Rightarrow> string \<Rightarrow> int \<Rightarrow> world \<Rightarrow> (rssItem list \<times> fetchError option) outcome \<times> world" where
  "fetchRSSItems net feedURL limit w =
     (let w1 = w\<lparr>fetched := fetched w @ [feedURL]\<rparr> in
      case net (fetched w) feedURL of
        NewRequestFails \<Rightarrow> (Returns ([], Some RequestError), w1)
      | DoFails \<Rightarrow> (Returns ([], Some TransportError), w1)
      | Response statusCode body \<Rightarrow>
          if statusCode < 200 \<or> statusCode \<ge> 300
          then (Returns ([], Some (StatusError statusCode)), w1)
          else (case body of
                  None \<Rightarrow> (Returns ([], Some DecodeError), w1)
                | Some feed \<Rightarrow>
                    (let items = Items (Channel feed) in
                     if int (length items) > limit
                     then (if limit < 0 then (Panics, w1)
                           else (Returns (take (nat limit) items, None), w1))
                     else (Returns (items, None), w1))))"

section \<open>Feed Resolver\<close>

text \<open>
  The loop over \<^verbatim>\<open>urls\<close>; \<open>all\<close> is the whole slice, which the final error prints.
\<close>

fun fetchFirstWorkingFeed_loop ::
  "network \<Rightarrow> string list \<Rightarrow> string list \<Rightarrow> int \<Rightarrow> world
     \<Rightarrow> (rssItem list \<times> string \<times> fetchError option) outcome \<times> world" where
  "fetchFirstWorkingFeed_loop net all [] limit w =
     (Returns ([], [], Some (NoWorkingURL all)), w)"
| "fetchFirstWorkingFeed_loop net all (feedURL # rest) limit w =
     (case fetchRSSItems net feedURL limit w of
        (Panics, w1) \<Rightarrow> (Panics, w1)
      | (Returns (items, err), w1) \<Rightarrow>
          if err = None \<and> length items > 0
          then (Returns (items, feedURL, None), w1)
          else fetchFirstWorkingFeed_loop net all rest limit
                 (case err of
                    None \<Rightarrow> w1
                  | Some e \<Rightarrow> logPrintf (FeedAttemptFailed feedURL e) w1))"

definition fetchFirstWorkingFeed ::
  "network \<Rightarrow> string list \<Rightarrow> int \<Rightarrow> world
     \<Rightarrow> (rssItem list \<times> string \<times> fetchError option) outcome \<times> world" where
  "fetchFirstWorkingFeed net us limit w = fetchFirstWorkingFeed_loop net us us limit w"

section \<open>Context Assembler\<close>

definition fallbackSnippet :: string where
  "fallbackSnippet =
     ''- Aucun flux cyclisme accessible pour le moment. R'' @ [CHR 0xC3, CHR 0xA9] @
     ''ponds de fa'' @ [CHR 0xC3, CHR 0xA7] @ ''on g'' @ [CHR 0xC3, CHR 0xA9] @ ''n'' @
     [CHR 0xC3, CHR 0xA9] @ ''rale et prudente sur les transferts r'' @
     [CHR 0xC3, CHR 0xA9] @ ''cents.''"

text \<open>The loop over the filtered items, appending to both slices.\<close>

fun fetchCyclingContext_items ::
  "rssItem list \<Rightarrow> string list \<Rightarrow> string list \<Rightarrow> string list \<times> string list" where
  "fetchCyclingContext_items [] snippets sources = (snippets, sources)"
| "fetchCyclingContext_items (it # items) snippets sources =
     (let date = (if PubDate it = [] then ''date inconnue'' else PubDate it);
          snippets1 = snippets @ [''- '' @ Title it @ '' ('' @ date @ '')''];
          sources1 = (if Link it \<noteq> [] then sources @ [Link it] else sources)
      in fetchCyclingContext_items items snippets1 sources1)"

text \<open>The loop over the feeds.\<close>

fun fetchCyclingContext_feeds ::
  "(string \<Rightarrow> string) \<Rightarrow> network \<Rightarrow> feedSource list \<Rightarrow> string list \<Rightarrow> string list \<Rightarrow> world
     \<Rightarrow> (string list \<times> string list) outcome \<times> world" where
  "fetchCyclingContext_feeds lower net [] snippets sources w =
     (Returns (snippets, sources), w)"
| "fetchCyclingContext_feeds lower net (feed # rest) snippets sources w =
     (case fetchFirstWorkingFeed net (urls feed) maxItemsPerFeed w of
        (Panics, w1) \<Rightarrow> (Panics, w1)
      | (Returns (items, srcURL, Some e), w1) \<Rightarrow>
          fetchCyclingContext_feeds lower net rest snippets sources
            (logPrintf (SkipFeed (name feed) e) w1)
      | (Returns (items, srcURL, None), w1) \<Rightarrow>
          (case fetchCyclingContext_items (filterTransferItems lower items) snippets sources of
             (snippets1, sources1) \<Rightarrow>
               fetchCyclingContext_feeds lower net rest snippets1
                 (if srcURL \<noteq> [] then sources1 @ [srcURL] else sources1) w1))"

definition fetchCyclingContext ::
  "(string \<Rightarrow> string) \<Rightarrow> network \<Rightarrow> world
     \<Rightarrow> (string list \<times> string list \<times> fetchError option) outcome \<times> world" where
  "fetchCyclingContext lower net w =
     (case fetchCyclingContext_feeds lower net cyclingFeeds [] [] w of
        (Panics, w1) \<Rightarrow> (Panics, w1)
      | (Returns (snippets, sources), w1) \<Rightarrow>
          if length snippets = 0
          then (Returns (snippets @ [fallbackSnippet], sources, None),
                logPrintf FallbackWarning w1)
          else (Returns (snippets, sources, None), w1))"

section \<open>Notions the properties are stated with\<close>

text \<open>
  The definitions of this section are not functions of the program: they say, in the
  specification's words, what a run is expected to produce, and the theorems compare
  the program's functions with them.
\<close>

text \<open>
  The result of \<^verbatim>\<open>fetchRSSItems\<close> on \<open>feedURL\<close> when the URLs \<open>prior\<close> were
  fetched before it.
\<close>

definition attempt ::
  "network \<Rightarrow> string list \<Rightarrow> string \<Rightarrow> int \<Rightarrow> (rssItem list \<times> fetchError option) outcome" where
  "attempt net prior feedURL limit =
     fst (fetchRSSItems net feedURL limit \<lparr>fetched = prior, logged = []\<rparr>)"

text \<open>A candidate that fails or returns no item: what the resolver passes over.\<close>

definition passedOver :: "(rssItem list \<times> fetchError option) outcome \<Rightarrow> bool" where
  "passedOver r =
     (case r of
        Returns (items, err) \<Rightarrow> err \<noteq> None \<or> items = []
      | Panics \<Rightarrow> False)"

text \<open>
  The successful sources of a run over \<open>feeds\<close>, in declaration order, each with its
  retained (filtered) items and its resolved feed URL. With the limit
  \<open>maxItemsPerFeed\<close> the resolver never panics (lemma \<open>resolver_cases\<close>), so the
  first branch below is never taken.
\<close>

fun successfulSources ::
  "(string \<Rightarrow> string) \<Rightarrow> network \<Rightarrow> feedSource list \<Rightarrow> world \<Rightarrow> (rssItem list \<times> string) list" where
  "successfulSources lower net [] w = []"
| "successfulSources lower net (feed # rest) w =
     (case fetchFirstWorkingFeed net (urls feed) maxItemsPerFeed w of
        (Panics, w1) \<Rightarrow> []
      | (Returns (items, srcURL, Some e), w1) \<Rightarrow>
          successfulSources lower net rest (logPrintf (SkipFeed (name feed) e) w1)
      | (Returns (items, srcURL, None), w1) \<Rightarrow>
          (filterTransferItems lower items, srcURL) # successfulSources lower net rest w1)"

text \<open>The snippet line of one item, and the links a source contributes.\<close>

definition snippetLine :: "rssItem \<Rightarrow> string" where
  "snippetLine it =
     ''- '' @ Title it @ '' ('' @
     (if PubDate it = [] then ''date inconnue'' else PubDate it) @ '')''"

definition nonEmptyLinks :: "rssItem list \<Rightarrow> string list" where
  "nonEmptyLinks items = filter (\<lambda>l. l \<noteq> []) (map Link items)"

section \<open>Sample inputs\<close>

text \<open>Concrete items, feeds and networks on which the theorems below are exercised.\<close>

definition sampleWorld :: world where
  "sampleWorld = \<lparr>fetched = [], logged = []\<rparr>"

definition sampleTransfer :: rssItem where
  "sampleTransfer =
     \<lparr>Title = ''Transfert: X rejoint Y'',
      Link = ''https://example.org/transfert'',
      PubDate = ''Mon, 03 Nov 2025 08:00:00 +0100''\<rparr>"

definition sampleResults :: rssItem where
  "sampleResults =
     \<lparr>Title = ''R'' @ [CHR 0xC3, CHR 0xA9] @ ''sultats '' @ [CHR 0xC3, CHR 0xA9] @ ''tape 3'',
      Link = [],
      PubDate = []\<rparr>"

definition sampleSignature :: rssItem where
  "sampleSignature =
     \<lparr>Title = ''Mercato : Y signe chez Z'', Link = [], PubDate = []\<rparr>"

definition sampleFeed :: rssFeed where
  "sampleFeed = \<lparr>Channel = \<lparr>Items = [sampleTransfer, sampleResults, sampleSignature]\<rparr>\<rparr>"

definition sampleLongFeed :: rssFeed where
  "sampleLongFeed =
     \<lparr>Channel = \<lparr>Items =
        map (\<lambda>t. \<lparr>Title = t, Link = [], PubDate = []\<rparr>)
          [''un'', ''deux'', ''trois'', ''quatre'', ''cinq'', ''six'']\<rparr>\<rparr>"

text \<open>Every request fails in transport.\<close>

definition netDown :: network where
  "netDown = (\<lambda>prior u. DoFails)"

text \<open>Every request is answered with the sample feed.\<close>

definition netUp :: network where
  "netUp = (\<lambda>prior u. Response 200 (Some sampleFeed))"

text \<open>Only the second configured feed answers; the first is out of service.\<close>

definition netSecondFeedOnly :: network where
  "netSecondFeedOnly =
     (\<lambda>prior u. if u = ''https://feeds.feedburner.com/ActualitsDirectvelo''
                  then Response 200 (Some sampleFeed) else Response 503 None)"

text \<open>Only the first configured feed answers; the second is out of service.\<close>

definition netFirstFeedOnly :: network where
  "netFirstFeedOnly =
     (\<lambda>prior u. if u = ''https://dwh.lequipe.fr/api/edito/rss?path=/Cyclisme/''
                  then Response 200 (Some sampleFeed) else Response 503 None)"

text \<open>A URL answers only from its second request on.\<close>

definition netSecondTry :: network where
  "netSecondTry =
     (\<lambda>prior u. if List.member prior u then Response 200 (Some sampleFeed) else DoFails)"

section \<open>Properties of the Item Filter\<close>

lemma matchesKeyword_iff:
  "matchesKeyword t kws \<longleftrightarrow> (\<exists>kw \<in> set kws. Contains t kw)"
  by (induction kws) auto

lemma filterTransferItems_loop_eq:
  "filterTransferItems_loop lower items filtered =
     filtered @ filter (\<lambda>it. matchesKeyword (lower (Title it)) transferKeywords) items"
  by (induction items arbitrary: filtered) auto

lemma filterTransferItems_eq:
  "filterTransferItems lower items =
     (if filter (\<lambda>it. matchesKeyword (lower (Title it)) transferKeywords) items = []
      then items
      else filter (\<lambda>it. matchesKeyword (lower (Title it)) transferKeywords) items)"
  by (simp add: filterTransferItems_def filterTransferItems_loop_eq)

lemma filterTransferItems_nonempty:
  "items \<noteq> [] \<Longrightarrow> filterTransferItems lower items \<noteq> []"
  by (simp add: filterTransferItems_eq)

section \<open>Properties of the Feed Resolver loop\<close>

lemma fetchRSSItems_attempt:
  "fetchRSSItems net u limit w = (attempt net (fetched w) u limit, w\<lparr>fetched := fetched w @ [u]\<rparr>)"
  by (simp add: fetchRSSItems_def attempt_def Let_def split: httpOutcome.splits option.splits)

lemma attempt_no_panic: "0 \<le> limit \<Longrightarrow> attempt net prior u limit \<noteq> Panics"
  by (simp add: fetchRSSItems_def attempt_def Let_def split: httpOutcome.splits option.splits)

lemma fetched_logPrintf [simp]: "fetched (logPrintf e w) = fetched w"
  by (simp add: logPrintf_def)

lemma loop_step_passed:
  assumes "passedOver (attempt net (fetched w) u limit)"
  shows "\<exists>w1. fetched w1 = fetched w @ [u] \<and>
           fetchFirstWorkingFeed_loop net all (u # rest) limit w =
           fetchFirstWorkingFeed_loop net all rest limit w1"
proof -
  from assms obtain items err where
    r: "attempt net (fetched w) u limit = Returns (items, err)" and
    p: "err \<noteq> None \<or> items = []"
    by (auto simp: passedOver_def split: outcome.splits)
  let ?w0 = "w\<lparr>fetched := fetched w @ [u]\<rparr>"
  let ?w1 = "case err of None \<Rightarrow> ?w0 | Some e \<Rightarrow> logPrintf (FeedAttemptFailed u e) ?w0"
  have "fetched ?w1 = fetched w @ [u]"
    by (cases err) simp_all
  moreover have "fetchFirstWorkingFeed_loop net all (u # rest) limit w =
      fetchFirstWorkingFeed_loop net all rest limit ?w1"
    using r p by (auto simp: fetchRSSItems_attempt)
  ultimately show ?thesis by blast
qed

lemma loop_step_success:
  assumes "attempt net (fetched w) u limit = Returns (items, None)" "items \<noteq> []"
  shows "fetchFirstWorkingFeed_loop net all (u # rest) limit w =
           (Returns (items, u, None), w\<lparr>fetched := fetched w @ [u]\<rparr>)"
  using assms by (simp add: fetchRSSItems_attempt)

lemma loop_all_passed:
  assumes "\<forall>i<length rest. passedOver (attempt net (fetched w @ take i rest) (rest ! i) limit)"
  shows "\<exists>w1. fetchFirstWorkingFeed_loop net all rest limit w =
               (Returns ([], [], Some (NoWorkingURL all)), w1) \<and>
             fetched w1 = fetched w @ rest"
  using assms
proof (induction rest arbitrary: w)
  case Nil
  then show ?case by simp
next
  case (Cons u rest)
  from Cons.prems have "passedOver (attempt net (fetched w) u limit)" by auto
  from loop_step_passed[OF this] obtain w1 where
    w1: "fetched w1 = fetched w @ [u]"
    "fetchFirstWorkingFeed_loop net all (u # rest) limit w =
       fetchFirstWorkingFeed_loop net all rest limit w1"
    by blast
  have "\<forall>i<length rest. passedOver (attempt net (fetched w1 @ take i rest) (rest ! i) limit)"
  proof (intro allI impI)
    fix i assume "i < length rest"
    with Cons.prems have "passedOver (attempt net (fetched w @ take (Suc i) (u # rest)) ((u # rest) ! Suc i) limit)"
      by auto
    then show "passedOver (attempt net (fetched w1 @ take i rest) (rest ! i) limit)"
      by (simp add: w1)
  qed
  from Cons.IH[OF this] w1 show ?case by auto
qed

lemma loop_first_success:
  assumes "i < length rest"
    and "\<forall>j<i. passedOver (attempt net (fetched w @ take j rest) (rest ! j) limit)"
    and "attempt net (fetched w @ take i rest) (rest ! i) limit = Returns (items, None)"
    and "items \<noteq> []"
  shows "\<exists>w1. fetchFirstWorkingFeed_loop net all rest limit w =
               (Returns (items, rest ! i, None), w1) \<and>
             fetched w1 = fetched w @ take (Suc i) rest"
  using assms
proof (induction rest arbitrary: w i)
  case Nil
  then show ?case by simp
next
  case (Cons u rest)
  show ?case
  proof (cases i)
    case 0
    with Cons.prems have "attempt net (fetched w) u limit = Returns (items, None)" by simp
    from loop_step_success[OF this Cons.prems(4)] 0 show ?thesis by simp
  next
    case (Suc k)
    with Cons.prems have "passedOver (attempt net (fetched w) u limit)" by auto
    from loop_step_passed[OF this] obtain w1 where
      w1: "fetched w1 = fetched w @ [u]"
      "fetchFirstWorkingFeed_loop net all (u # rest) limit w =
         fetchFirstWorkingFeed_loop net all rest limit w1"
      by blast
    have a: "k < length rest" using Cons.prems Suc by simp
    have b: "\<forall>j<k. passedOver (attempt net (fetched w1 @ take j rest) (rest ! j) limit)"
    proof (intro allI impI)
      fix j assume "j < k"
      then have "Suc j < i" using Suc by simp
      with Cons.prems(2) have "passedOver (attempt net (fetched w @ take (Suc j) (u # rest)) ((u # rest) ! Suc j) limit)"
        by blast
      then show "passedOver (attempt net (fetched w1 @ take j rest) (rest ! j) limit)"
        by (simp add: w1)
    qed
    have c: "attempt net (fetched w1 @ take k rest) (rest ! k) limit = Returns (items, None)"
      using Cons.prems(3) Suc by (simp add: w1)
    from Cons.IH[OF a b c Cons.prems(4)] w1 Suc show ?thesis by auto
  qed
qed

lemma loop_success_props:
  "fetchFirstWorkingFeed_loop net all rest limit w = (Returns (items, u, None), w1)
     \<Longrightarrow> items \<noteq> [] \<and> u \<in> set rest"
  by (induction rest arbitrary: w)
     (auto split: prod.splits outcome.splits if_splits)

lemma loop_failure_props:
  "fetchFirstWorkingFeed_loop net all rest limit w = (Returns (items, u, Some e), w1)
     \<Longrightarrow> items = [] \<and> u = [] \<and> e = NoWorkingURL all"
  by (induction rest arbitrary: w)
     (auto split: prod.splits outcome.splits if_splits)

lemma loop_no_panic:
  "0 \<le> limit \<Longrightarrow> fst (fetchFirstWorkingFeed_loop net all rest limit w) \<noteq> Panics"
proof (induction rest arbitrary: w)
  case Nil
  then show ?case by simp
next
  case (Cons u rest)
  then show ?case
    using attempt_no_panic[of limit net "fetched w" u]
    by (auto simp: fetchRSSItems_attempt split: prod.splits outcome.splits)
qed

section \<open>Properties of the Context Assembler loops\<close>

lemma fetchCyclingContext_items_eq:
  "fetchCyclingContext_items items snippets sources =
     (snippets @ map snippetLine items, sources @ nonEmptyLinks items)"
  by (induction items arbitrary: snippets sources)
     (simp_all add: snippetLine_def nonEmptyLinks_def Let_def)

lemma maxItemsPerFeed_nonneg: "0 \<le> maxItemsPerFeed"
  by (simp add: maxItemsPerFeed_def)

lemma resolver_cases:
  obtains (success) items u w1 where
      "fetchFirstWorkingFeed net us maxItemsPerFeed w = (Returns (items, u, None), w1)"
      "items \<noteq> []" "u \<in> set us"
  | (failure) w1 where
      "fetchFirstWorkingFeed net us maxItemsPerFeed w =
         (Returns ([], [], Some (NoWorkingURL us)), w1)"
proof -
  obtain r w1 where eq: "fetchFirstWorkingFeed net us maxItemsPerFeed w = (r, w1)"
    by (cases "fetchFirstWorkingFeed net us maxItemsPerFeed w")
  have "r \<noteq> Panics"
    using loop_no_panic[OF maxItemsPerFeed_nonneg, of net us us w] eq
    by (simp add: fetchFirstWorkingFeed_def)
  then obtain items u err where r: "r = Returns (items, u, err)"
    by (cases r) auto
  show thesis
  proof (cases err)
    case None
    with eq r loop_success_props[of net us us maxItemsPerFeed w items u w1]
    show ?thesis by (auto simp: fetchFirstWorkingFeed_def intro: success)
  next
    case (Some e)
    with eq r loop_failure_props[of net us us maxItemsPerFeed w items u e w1]
    show ?thesis by (auto simp: fetchFirstWorkingFeed_def intro: failure)
  qed
qed

lemma filterTransferItems_Nil_iff:
  "filterTransferItems lower items = [] \<longleftrightarrow> items = []"
  by (auto simp: filterTransferItems_eq)

lemma successfulSources_props:
  "(its, u) \<in> set (successfulSources lower net feeds w)
     \<Longrightarrow> its \<noteq> [] \<and> (\<exists>f \<in> set feeds. u \<in> set (urls f))"
proof (induction feeds arbitrary: w)
  case Nil
  then show ?case by simp
next
  case (Cons feed rest)
  show ?case
  proof (cases rule: resolver_cases[of net "urls feed" w])
    case (success items srcURL w1)
    with Cons show ?thesis
      by (auto simp: filterTransferItems_Nil_iff)
  next
    case (failure w1)
    with Cons show ?thesis by auto
  qed
qed

lemma fetchCyclingContext_feeds_eq:
  "\<exists>w1. fetchCyclingContext_feeds lower net feeds snippets sources w =
     (Returns
        (snippets @ concat (map (\<lambda>(items, srcURL). map snippetLine items)
                              (successfulSources lower net feeds w)),
         sources @ concat (map (\<lambda>(items, srcURL).
                                  nonEmptyLinks items @ (if srcURL \<noteq> [] then [srcURL] else []))
                              (successfulSources lower net feeds w))),
      w1)"
proof (induction feeds arbitrary: snippets sources w)
  case Nil
  then show ?case by simp
next
  case (Cons feed rest)
  show ?case
  proof (cases rule: resolver_cases[of net "urls feed" w])
    case (success items srcURL w1)
    then show ?thesis
      using Cons.IH[of "snippets @ map snippetLine (filterTransferItems lower items)"
          "if srcURL \<noteq> [] then (sources @ nonEmptyLinks (filterTransferItems lower items)) @ [srcURL]
           else sources @ nonEmptyLinks (filterTransferItems lower items)" w1]
      by (auto simp: fetchCyclingContext_items_eq)
  next
    case (failure w1)
    then show ?thesis
      using Cons.IH[of snippets sources "logPrintf (SkipFeed (name feed) (NoWorkingURL (urls feed))) w1"]
      by auto
  qed
qed

lemma fetchCyclingContext_feeds_append:
  "fetchCyclingContext_feeds lower net pre snippets0 sources0 w = (Returns (snippets, sources), w1)
     \<Longrightarrow> fetchCyclingContext_feeds lower net (pre @ post) snippets0 sources0 w =
         fetchCyclingContext_feeds lower net post snippets sources w1"
proof (induction pre arbitrary: snippets0 sources0 w)
  case Nil
  then show ?case by simp
next
  case (Cons feed rest)
  show ?case
  proof (cases rule: resolver_cases[of net "urls feed" w])
    case (success items srcURL w2)
    with Cons.prems show ?thesis
      by (auto split: prod.splits intro!: Cons.IH)
  next
    case (failure w2)
    with Cons.prems show ?thesis
      by (auto intro!: Cons.IH)
  qed
qed

lemma cyclingFeeds_urls_nonempty:
  "f \<in> set cyclingFeeds \<Longrightarrow> u \<in> set (urls f) \<Longrightarrow> u \<noteq> []"
  by (auto simp: cyclingFeeds_def)

lemma successfulSources_guard:
  assumes "\<forall>f \<in> set feeds. [] \<notin> set (urls f)"
  shows "map (\<lambda>(items, srcURL). nonEmptyLinks items @ (if srcURL \<noteq> [] then [srcURL] else []))
           (successfulSources lower net feeds w) =
         map (\<lambda>(items, srcURL). nonEmptyLinks items @ [srcURL])
           (successfulSources lower net feeds w)"
proof (rule map_cong[OF refl])
  fix p assume "p \<in> set (successfulSources lower net feeds w)"
  moreover obtain its u where p: "p = (its, u)" by (cases p)
  ultimately obtain f where "f \<in> set feeds" "u \<in> set (urls f)"
    using successfulSources_props[of its u lower net feeds w] by blast
  with assms have "u \<noteq> []" by auto
  with p show "(case p of (items, srcURL) \<Rightarrow>
                  nonEmptyLinks items @ (if srcURL \<noteq> [] then [srcURL] else [])) =
               (case p of (items, srcURL) \<Rightarrow> nonEmptyLinks items @ [srcURL])"
    by simp
qed

lemma successfulSources_empty_iff:
  "concat (map (\<lambda>(items, srcURL). map snippetLine items) (successfulSources lower net feeds w)) = []
     \<longleftrightarrow> successfulSources lower net feeds w = []"
proof (cases "successfulSources lower net feeds w")
  case Nil
  then show ?thesis by simp
next
  case (Cons p ps)
  obtain its u where p: "p = (its, u)" by (cases p)
  with Cons have "(its, u) \<in> set (successfulSources lower net feeds w)" by simp
  then have "its \<noteq> []" using successfulSources_props by blast
  with Cons p show ?thesis by simp
qed

section \<open>Claims about the Item Filter\<close>

text \<open>
  Claim C4. The Item Filter is idempotent: filtering the result of filtering a list gives
  the same list as filtering it once. It holds for every list and every lower-casing
  function, so in particular for every non-empty list.
\<close>

theorem filterTransferItems_idempotent:
  "filterTransferItems lower (filterTransferItems lower xs) = filterTransferItems lower xs"
proof (cases "filter (\<lambda>it. matchesKeyword (lower (Title it)) transferKeywords) xs = []")
  case True
  then show ?thesis by (simp add: filterTransferItems_eq)
next
  case False
  then show ?thesis by (simp add: filterTransferItems_eq)
qed

theorem filterTransferItems_idempotent_witness:
  "filterTransferItems toLowerASCII [sampleTransfer, sampleSignature] =
     [sampleTransfer, sampleSignature]"
proof -
  have once: "filterTransferItems toLowerASCII (Items (Channel sampleFeed)) =
      [sampleTransfer, sampleSignature]"
    by code_simp
  from filterTransferItems_idempotent[of toLowerASCII "Items (Channel sampleFeed)"]
  show ?thesis unfolding once .
qed

text \<open>
  Claim C5. When no item's lower-cased title contains a configured keyword, the Item
  Filter returns its input unchanged; and it never returns the empty list from a
  non-empty input.
\<close>

theorem filterTransferItems_no_match_unchanged:
  "((\<forall>it \<in> set xs. \<forall>kw \<in> set transferKeywords. \<not> Contains (lower (Title it)) kw)
      \<longrightarrow> filterTransferItems lower xs = xs) \<and>
   (xs \<noteq> [] \<longrightarrow> filterTransferItems lower xs \<noteq> [])"
proof -
  have "filterTransferItems lower xs = xs"
    if "\<forall>it \<in> set xs. \<forall>kw \<in> set transferKeywords. \<not> Contains (lower (Title it)) kw"
  proof -
    from that have "filter (\<lambda>it. matchesKeyword (lower (Title it)) transferKeywords) xs = []"
      by (simp add: matchesKeyword_iff filter_empty_conv)
    then show ?thesis by (simp add: filterTransferItems_eq)
  qed
  then show ?thesis by (simp add: filterTransferItems_nonempty)
qed

theorem filterTransferItems_no_match_unchanged_witness:
  "filterTransferItems toLowerASCII [sampleResults] = [sampleResults] \<and>
   filterTransferItems toLowerASCII [sampleResults] \<noteq> []"
proof -
  have h: "\<forall>it \<in> set [sampleResults]. \<forall>kw \<in> set transferKeywords.
             \<not> Contains (toLowerASCII (Title it)) kw"
    by code_simp
  have n: "[sampleResults] \<noteq> []" by simp
  from filterTransferItems_no_match_unchanged[of "[sampleResults]" toLowerASCII] h n
  show ?thesis by blast
qed

section \<open>Claims about the Feed Fetcher\<close>

text \<open>
  Claim C6. On a response with a status in 200..299 whose body decodes to a feed, the Feed
  Fetcher called with the limit \<open>maxItemsPerFeed\<close> returns exactly the first 5 items, in
  document order, when the channel has more than 5 items, and the channel's items
  unmodified when it has at most 5.
\<close>

theorem fetchRSSItems_truncates_to_five:
  assumes "net (fetched w) feedURL = Response statusCode (Some feed)"
    and "200 \<le> statusCode" and "statusCode < 300"
  shows "(5 < length (Items (Channel feed)) \<longrightarrow>
            fst (fetchRSSItems net feedURL maxItemsPerFeed w) =
              Returns (take 5 (Items (Channel feed)), None) \<and>
            length (take 5 (Items (Channel feed))) = 5) \<and>
         (length (Items (Channel feed)) \<le> 5 \<longrightarrow>
            fst (fetchRSSItems net feedURL maxItemsPerFeed w) =
              Returns (Items (Channel feed), None))"
  using assms by (simp add: fetchRSSItems_def maxItemsPerFeed_def Let_def)

theorem fetchRSSItems_truncates_to_five_witness:
  "fst (fetchRSSItems (\<lambda>prior u. Response 200 (Some sampleLongFeed)) ''u'' maxItemsPerFeed
          sampleWorld) =
     Returns (take 5 (Items (Channel sampleLongFeed)), None) \<and>
   length (take 5 (Items (Channel sampleLongFeed))) = 5 \<and>
   fst (fetchRSSItems netUp ''u'' maxItemsPerFeed sampleWorld) =
     Returns (Items (Channel sampleFeed), None)"
proof -
  have long: "5 < length (Items (Channel sampleLongFeed))" by code_simp
  have short: "length (Items (Channel sampleFeed)) \<le> 5" by code_simp
  have ok: "(200::int) \<le> 200" "(200::int) < 300" by simp_all
  have a: "(\<lambda>prior u. Response 200 (Some sampleLongFeed)) (fetched sampleWorld) ''u'' =
      Response 200 (Some sampleLongFeed)" by simp
  have b: "netUp (fetched sampleWorld) ''u'' = Response 200 (Some sampleFeed)"
    by (simp add: netUp_def)
  from fetchRSSItems_truncates_to_five
      [of "\<lambda>prior u. Response 200 (Some sampleLongFeed)" sampleWorld "''u''" 200 sampleLongFeed,
       OF a ok] long
    fetchRSSItems_truncates_to_five[of netUp sampleWorld "''u''" 200 sampleFeed, OF b ok] short
  show ?thesis by blast
qed

section \<open>Claims about the Feed Resolver\<close>

text \<open>
  Claim C3. Let candidate \<open>i\<close> be the first whose fetch returns a nil error and a non-empty
  item list, every earlier candidate having failed or returned no item (each fetch made
  after the fetches before it). Then the Feed Resolver returns exactly that item list
  with that URL and a nil error, and the requests it made are the candidates up to and
  including \<open>i\<close>, in order: no later candidate is attempted.
\<close>

theorem fetchFirstWorkingFeed_first_success:
  assumes "i < length us"
    and "\<forall>j<i. passedOver (attempt net (fetched w @ take j us) (us ! j) limit)"
    and "attempt net (fetched w @ take i us) (us ! i) limit = Returns (items, None)"
    and "items \<noteq> []"
  shows "\<exists>w1. fetchFirstWorkingFeed net us limit w = (Returns (items, us ! i, None), w1) \<and>
              fetched w1 = fetched w @ take (Suc i) us"
  unfolding fetchFirstWorkingFeed_def
  using assms by (rule loop_first_success)

theorem fetchFirstWorkingFeed_first_success_witness:
  "\<exists>w1. fetchFirstWorkingFeed netSecondTry [''a'', ''a'', ''b''] 5 sampleWorld =
           (Returns (Items (Channel sampleFeed), [''a'', ''a'', ''b''] ! 1, None), w1) \<and>
         fetched w1 = fetched sampleWorld @ take (Suc 1) [''a'', ''a'', ''b'']"
proof -
  have i: "(1::nat) < length [''a'', ''a'', ''b'']" by simp
  have p0: "passedOver (attempt netSecondTry (fetched sampleWorld @ take 0 [''a'', ''a'', ''b''])
      ([''a'', ''a'', ''b''] ! 0) 5)"
    by code_simp
  have earlier: "\<forall>j<1. passedOver (attempt netSecondTry
      (fetched sampleWorld @ take j [''a'', ''a'', ''b'']) ([''a'', ''a'', ''b''] ! j) 5)"
    using p0 by simp
  have hit: "attempt netSecondTry (fetched sampleWorld @ take 1 [''a'', ''a'', ''b''])
      ([''a'', ''a'', ''b''] ! 1) 5 = Returns (Items (Channel sampleFeed), None)"
    by code_simp
  have ne: "Items (Channel sampleFeed) \<noteq> []" by code_simp
  show ?thesis
    by (rule fetchFirstWorkingFeed_first_success[OF i earlier hit ne])
qed

text \<open>
  Claim C7. When every candidate fails or returns no item, the Feed Resolver returns the
  error \<open>NoWorkingURL\<close> carrying the whole candidate list, with no item and an empty
  URL, after having requested every candidate in order.
\<close>

theorem fetchFirstWorkingFeed_all_exhausted:
  assumes "\<forall>i<length us. passedOver (attempt net (fetched w @ take i us) (us ! i) limit)"
  shows "\<exists>w1. fetchFirstWorkingFeed net us limit w =
                (Returns ([], [], Some (NoWorkingURL us)), w1) \<and>
              fetched w1 = fetched w @ us"
  unfolding fetchFirstWorkingFeed_def
  using assms by (rule loop_all_passed)

theorem fetchFirstWorkingFeed_all_exhausted_witness:
  "\<exists>w1. fetchFirstWorkingFeed netDown [''a'', ''b''] 5 sampleWorld =
           (Returns ([], [], Some (NoWorkingURL [''a'', ''b''])), w1) \<and>
         fetched w1 = fetched sampleWorld @ [''a'', ''b'']"
proof -
  have "passedOver (attempt netDown prior u 5)" for prior u
    by (simp add: passedOver_def attempt_def fetchRSSItems_def netDown_def)
  then have "\<forall>i<length [''a'', ''b'']. passedOver (attempt netDown
      (fetched sampleWorld @ take i [''a'', ''b'']) ([''a'', ''b''] ! i) 5)"
    by blast
  then show ?thesis by (rule fetchFirstWorkingFeed_all_exhausted)
qed

text \<open>
  Claim C10. On the empty candidate list the Feed Resolver returns no item, the empty URL
  and an error, and leaves the world as it was: no request is made and nothing is logged.
\<close>

theorem fetchFirstWorkingFeed_no_candidates:
  "fetchFirstWorkingFeed net [] limit w = (Returns ([], [], Some (NoWorkingURL [])), w)"
  by (simp add: fetchFirstWorkingFeed_def)

theorem fetchFirstWorkingFeed_no_candidates_witness:
  "fetchFirstWorkingFeed netUp [] 5 sampleWorld =
     (Returns ([], [], Some (NoWorkingURL [])), sampleWorld)"
  by (rule fetchFirstWorkingFeed_no_candidates)


section \<open>Claims about the Context Assembler\<close>

text \<open>
  Claim C1. If the loop over the configured feeds ends with no snippet, the Context
  Assembler returns the fallback snippet alone and an empty source list; and whatever
  the network does, it returns a snippet list that is not empty.
\<close>

theorem fetchCyclingContext_fallback:
  "(\<forall>sources w1.
      fetchCyclingContext_feeds lower net cyclingFeeds [] [] w = (Returns ([], sources), w1)
      \<longrightarrow> fetchCyclingContext lower net w =
            (Returns ([fallbackSnippet], [], None), logPrintf FallbackWarning w1)) \<and>
   (\<exists>snippets sources w2.
      fetchCyclingContext lower net w = (Returns (snippets, sources, None), w2) \<and>
      snippets \<noteq> [])"
proof -
  let ?S = "successfulSources lower net cyclingFeeds w"
  let ?sn = "concat (map (\<lambda>(items, srcURL). map snippetLine items) ?S)"
  let ?so = "concat (map (\<lambda>(items, srcURL).
                 nonEmptyLinks items @ (if srcURL \<noteq> [] then [srcURL] else [])) ?S)"
  from fetchCyclingContext_feeds_eq[of lower net cyclingFeeds "[]" "[]" w]
  obtain w1 where run:
    "fetchCyclingContext_feeds lower net cyclingFeeds [] [] w = (Returns (?sn, ?so), w1)"
    by auto
  have empty: "?so = []" if "?sn = []"
  proof -
    from that have "?S = []" by (simp only: successfulSources_empty_iff)
    then show ?thesis by simp
  qed
  show ?thesis
  proof (cases "?sn = []")
    case True
    with run empty show ?thesis
      by (auto simp: fetchCyclingContext_def)
  next
    case False
    with run show ?thesis
      by (auto simp: fetchCyclingContext_def)
  qed
qed

theorem fetchCyclingContext_fallback_witness:
  "fetchCyclingContext toLowerASCII netDown sampleWorld =
     (Returns ([fallbackSnippet], [], None),
      logPrintf FallbackWarning
        \<lparr>fetched = concat (map urls cyclingFeeds),
         logged = concat (map (\<lambda>f. [FeedAttemptFailed (hd (urls f)) TransportError,
                                      SkipFeed (name f) (NoWorkingURL (urls f))]) cyclingFeeds)\<rparr>)"
proof -
  have run: "fetchCyclingContext_feeds toLowerASCII netDown cyclingFeeds [] [] sampleWorld =
      (Returns ([], []),
       \<lparr>fetched = concat (map urls cyclingFeeds),
        logged = concat (map (\<lambda>f. [FeedAttemptFailed (hd (urls f)) TransportError,
                                     SkipFeed (name f) (NoWorkingURL (urls f))]) cyclingFeeds)\<rparr>)"
    by code_simp
  from fetchCyclingContext_fallback[of toLowerASCII netDown sampleWorld] run
  show ?thesis by blast
qed

text \<open>
  Claim C2. The Context Assembler never fails: against every network it returns, with a
  nil error. And the failure of one source is absorbed in what it returns: split the
  configured feeds at a feed on which the Feed Resolver fails. Then the snippets and
  sources gathered up to that feed are the contributions of the successful sources
  before it, and the Context Assembler returns these followed by the contributions of
  the successful sources after it (the fallback snippet when there is none at all); the
  failed feed adds no snippet and no source URL.
\<close>

theorem fetchCyclingContext_never_fails:
  "(\<exists>snippets sources w1.
      fetchCyclingContext lower net w = (Returns (snippets, sources, None), w1)) \<and>
   (\<forall>pre feed post snippets sources w1 items srcURL e w2.
      cyclingFeeds = pre @ feed # post \<longrightarrow>
      fetchCyclingContext_feeds lower net pre [] [] w = (Returns (snippets, sources), w1) \<longrightarrow>
      fetchFirstWorkingFeed net (urls feed) maxItemsPerFeed w1 =
        (Returns (items, srcURL, Some e), w2) \<longrightarrow>
      snippets = concat (map (\<lambda>(items, srcURL). map snippetLine items)
                           (successfulSources lower net pre w)) \<and>
      sources = concat (map (\<lambda>(items, srcURL). nonEmptyLinks items @ [srcURL])
                          (successfulSources lower net pre w)) \<and>
      (\<exists>w3. fetchCyclingContext lower net w =
         (Returns
            (if snippets @ concat (map (\<lambda>(items, srcURL). map snippetLine items)
                   (successfulSources lower net post (logPrintf (SkipFeed (name feed) e) w2))) = []
             then [fallbackSnippet]
             else snippets @ concat (map (\<lambda>(items, srcURL). map snippetLine items)
                   (successfulSources lower net post (logPrintf (SkipFeed (name feed) e) w2))),
             sources @ concat (map (\<lambda>(items, srcURL). nonEmptyLinks items @ [srcURL])
                   (successfulSources lower net post (logPrintf (SkipFeed (name feed) e) w2))),
             None),
          w3)))"
proof -
  obtain sn so w1 where
    "fetchCyclingContext_feeds lower net cyclingFeeds [] [] w = (Returns (sn, so), w1)"
    using fetchCyclingContext_feeds_eq[of lower net cyclingFeeds "[]" "[]" w] by auto
  then have returns: "\<exists>snippets sources w1.
      fetchCyclingContext lower net w = (Returns (snippets, sources, None), w1)"
    by (simp add: fetchCyclingContext_def)
  have absorbed:
    "snippets = concat (map (\<lambda>(items, srcURL). map snippetLine items)
                           (successfulSources lower net pre w)) \<and>
     sources = concat (map (\<lambda>(items, srcURL). nonEmptyLinks items @ [srcURL])
                          (successfulSources lower net pre w)) \<and>
     (\<exists>w3. fetchCyclingContext lower net w =
         (Returns
            (if snippets @ concat (map (\<lambda>(items, srcURL). map snippetLine items)
                   (successfulSources lower net post (logPrintf (SkipFeed (name feed) e) w2))) = []
             then [fallbackSnippet]
             else snippets @ concat (map (\<lambda>(items, srcURL). map snippetLine items)
                   (successfulSources lower net post (logPrintf (SkipFeed (name feed) e) w2))),
             sources @ concat (map (\<lambda>(items, srcURL). nonEmptyLinks items @ [srcURL])
                   (successfulSources lower net post (logPrintf (SkipFeed (name feed) e) w2))),
             None),
          w3))"
    if split: "cyclingFeeds = pre @ feed # post"
      and before: "fetchCyclingContext_feeds lower net pre [] [] w = (Returns (snippets, sources), w1)"
      and fails: "fetchFirstWorkingFeed net (urls feed) maxItemsPerFeed w1 =
        (Returns (items, srcURL, Some e), w2)"
    for pre feed post snippets sources w1 items srcURL e w2
  proof -
    let ?w2 = "logPrintf (SkipFeed (name feed) e) w2"
    let ?SN = "concat (map (\<lambda>(items, srcURL). map snippetLine items)
                   (successfulSources lower net post ?w2))"
    let ?SO = "concat (map (\<lambda>(items, srcURL). nonEmptyLinks items @ [srcURL])
                   (successfulSources lower net post ?w2))"
    have mem: "set pre \<subseteq> set cyclingFeeds" "set post \<subseteq> set cyclingFeeds"
      unfolding split by auto
    have pre_ok: "\<forall>f \<in> set pre. [] \<notin> set (urls f)"
      and post_ok: "\<forall>f \<in> set post. [] \<notin> set (urls f)"
      using mem cyclingFeeds_urls_nonempty by blast+
    from fetchCyclingContext_feeds_eq[of lower net pre "[]" "[]" w] before
    have sn: "snippets = concat (map (\<lambda>(items, srcURL). map snippetLine items)
                           (successfulSources lower net pre w))"
      and so: "sources = concat (map (\<lambda>(items, srcURL). nonEmptyLinks items @ [srcURL])
                          (successfulSources lower net pre w))"
      unfolding successfulSources_guard[OF pre_ok] by auto
    have "fetchCyclingContext_feeds lower net cyclingFeeds [] [] w =
        fetchCyclingContext_feeds lower net (feed # post) snippets sources w1"
      unfolding split by (rule fetchCyclingContext_feeds_append[OF before])
    also have "\<dots> = fetchCyclingContext_feeds lower net post snippets sources ?w2"
      using fails by simp
    finally have "fetchCyclingContext_feeds lower net cyclingFeeds [] [] w =
        fetchCyclingContext_feeds lower net post snippets sources ?w2" .
    with fetchCyclingContext_feeds_eq[of lower net post snippets sources ?w2]
    obtain w3 where run:
      "fetchCyclingContext_feeds lower net cyclingFeeds [] [] w =
         (Returns (snippets @ ?SN, sources @ ?SO), w3)"
      unfolding successfulSources_guard[OF post_ok] by auto
    define T where "T = snippets @ ?SN"
    define U where "U = sources @ ?SO"
    from run have "fetchCyclingContext_feeds lower net cyclingFeeds [] [] w = (Returns (T, U), w3)"
      by (simp only: T_def U_def)
    then have "\<exists>w3. fetchCyclingContext lower net w =
        (Returns (if T = [] then [fallbackSnippet] else T, U, None), w3)"
      by (cases "T = []") (simp_all add: fetchCyclingContext_def)
    then have "\<exists>w3. fetchCyclingContext lower net w =
        (Returns (if snippets @ ?SN = [] then [fallbackSnippet] else snippets @ ?SN,
                  sources @ ?SO, None), w3)"
      by (simp only: T_def U_def)
    with sn so show ?thesis by blast
  qed
  from returns absorbed show ?thesis by blast
qed


theorem fetchCyclingContext_never_fails_witness:
  "(\<exists>w3. fetchCyclingContext toLowerASCII netSecondFeedOnly sampleWorld =
      (Returns
         ([''- Transfert: X rejoint Y (Mon, 03 Nov 2025 08:00:00 +0100)'',
           ''- Mercato : Y signe chez Z (date inconnue)''],
          [''https://example.org/transfert'',
           ''https://feeds.feedburner.com/ActualitsDirectvelo''],
          None),
       w3)) \<and>
   (\<exists>w3. fetchCyclingContext toLowerASCII netFirstFeedOnly sampleWorld =
      (Returns
         ([''- Transfert: X rejoint Y (Mon, 03 Nov 2025 08:00:00 +0100)'',
           ''- Mercato : Y signe chez Z (date inconnue)''],
          [''https://example.org/transfert'',
           ''https://dwh.lequipe.fr/api/edito/rss?path=/Cyclisme/''],
          None),
       w3))"
proof -
  let ?f1 = "hd cyclingFeeds"
  let ?f2 = "hd (tl cyclingFeeds)"
  let ?lines = "[''- Transfert: X rejoint Y (Mon, 03 Nov 2025 08:00:00 +0100)'',
                 ''- Mercato : Y signe chez Z (date inconnue)'']"
  let ?wa = "\<lparr>fetched = urls ?f1,
              logged = [FeedAttemptFailed (hd (urls ?f1)) (StatusError 503)]\<rparr>"
  let ?ea = "NoWorkingURL (urls ?f1)"
  have split_a: "cyclingFeeds = [] @ ?f1 # tl cyclingFeeds"
    by code_simp
  have before_a: "fetchCyclingContext_feeds toLowerASCII netSecondFeedOnly [] [] [] sampleWorld =
      (Returns ([], []), sampleWorld)"
    by simp
  have fails_a: "fetchFirstWorkingFeed netSecondFeedOnly (urls ?f1) maxItemsPerFeed sampleWorld =
      (Returns ([], [], Some ?ea), ?wa)"
    by code_simp
  have snippets_a:
    "(if [] @ concat (map (\<lambda>(items, srcURL). map snippetLine items)
            (successfulSources toLowerASCII netSecondFeedOnly (tl cyclingFeeds)
               (logPrintf (SkipFeed (name ?f1) ?ea) ?wa))) = []
      then [fallbackSnippet]
      else [] @ concat (map (\<lambda>(items, srcURL). map snippetLine items)
            (successfulSources toLowerASCII netSecondFeedOnly (tl cyclingFeeds)
               (logPrintf (SkipFeed (name ?f1) ?ea) ?wa)))) = ?lines"
    by code_simp
  have sources_a:
    "[] @ concat (map (\<lambda>(items, srcURL). nonEmptyLinks items @ [srcURL])
            (successfulSources toLowerASCII netSecondFeedOnly (tl cyclingFeeds)
               (logPrintf (SkipFeed (name ?f1) ?ea) ?wa))) =
     [''https://example.org/transfert'', ''https://feeds.feedburner.com/ActualitsDirectvelo'']"
    by code_simp
  note a = fetchCyclingContext_never_fails
    [of toLowerASCII netSecondFeedOnly sampleWorld, THEN conjunct2, rule_format,
     OF split_a before_a fails_a, THEN conjunct2, THEN conjunct2]
  let ?w1 = "\<lparr>fetched = urls ?f1, logged = []\<rparr>"
  let ?wb = "\<lparr>fetched = urls ?f1 @ urls ?f2,
              logged = [FeedAttemptFailed (hd (urls ?f2)) (StatusError 503)]\<rparr>"
  let ?eb = "NoWorkingURL (urls ?f2)"
  let ?links = "[''https://example.org/transfert'',
                 ''https://dwh.lequipe.fr/api/edito/rss?path=/Cyclisme/'']"
  have split_b: "cyclingFeeds = [?f1] @ ?f2 # []"
    by code_simp
  have before_b: "fetchCyclingContext_feeds toLowerASCII netFirstFeedOnly [?f1] [] [] sampleWorld =
      (Returns (?lines, ?links), ?w1)"
    by code_simp
  have fails_b: "fetchFirstWorkingFeed netFirstFeedOnly (urls ?f2) maxItemsPerFeed ?w1 =
      (Returns ([], [], Some ?eb), ?wb)"
    by code_simp
  have snippets_b:
    "(if ?lines @ concat (map (\<lambda>(items, srcURL). map snippetLine items)
            (successfulSources toLowerASCII netFirstFeedOnly []
               (logPrintf (SkipFeed (name ?f2) ?eb) ?wb))) = []
      then [fallbackSnippet]
      else ?lines @ concat (map (\<lambda>(items, srcURL). map snippetLine items)
            (successfulSources toLowerASCII netFirstFeedOnly []
               (logPrintf (SkipFeed (name ?f2) ?eb) ?wb)))) = ?lines"
    by code_simp
  have sources_b:
    "?links @ concat (map (\<lambda>(items, srcURL). nonEmptyLinks items @ [srcURL])
            (successfulSources toLowerASCII netFirstFeedOnly []
               (logPrintf (SkipFeed (name ?f2) ?eb) ?wb))) = ?links"
    by code_simp
  note b = fetchCyclingContext_never_fails
    [of toLowerASCII netFirstFeedOnly sampleWorld, THEN conjunct2, rule_format,
     OF split_b before_b fails_b, THEN conjunct2, THEN conjunct2]
  from a[unfolded snippets_a sources_a] b[unfolded snippets_b sources_b]
  show ?thesis by (rule conjI)
qed

text \<open>
  Claim C8. The source URL list the Context Assembler returns is, for each successful
  source in declaration order, the non-empty links of that source's retained items in
  item order, followed by that source's resolved feed URL. It is the plain concatenation
  of these contributions: an entry that occurs twice stays twice.
\<close>

theorem fetchCyclingContext_sources:
  "\<exists>snippets w1.
     fetchCyclingContext lower net w =
       (Returns (snippets,
                 concat (map (\<lambda>(items, srcURL). nonEmptyLinks items @ [srcURL])
                           (successfulSources lower net cyclingFeeds w)),
                 None),
        w1)"
proof -
  let ?S = "successfulSources lower net cyclingFeeds w"
  have "(\<lambda>(items, srcURL). nonEmptyLinks items @ (if srcURL \<noteq> [] then [srcURL] else [])) p =
        (\<lambda>(items, srcURL). nonEmptyLinks items @ [srcURL]) p" if "p \<in> set ?S" for p
  proof -
    obtain its u where p: "p = (its, u)" by (cases p)
    with that successfulSources_props[of its u lower net cyclingFeeds w]
    obtain f where "f \<in> set cyclingFeeds" "u \<in> set (urls f)" by blast
    then have "u \<noteq> []" by (rule cyclingFeeds_urls_nonempty)
    with p show ?thesis by simp
  qed
  then have same: "map (\<lambda>(items, srcURL). nonEmptyLinks items @ (if srcURL \<noteq> [] then [srcURL] else [])) ?S =
      map (\<lambda>(items, srcURL). nonEmptyLinks items @ [srcURL]) ?S"
    by (rule map_cong[OF refl])
  from fetchCyclingContext_feeds_eq[of lower net cyclingFeeds "[]" "[]" w]
  show ?thesis
    unfolding same by (auto simp: fetchCyclingContext_def)
qed

theorem fetchCyclingContext_sources_witness:
  "\<exists>snippets w1.
     fetchCyclingContext toLowerASCII netUp sampleWorld =
       (Returns (snippets,
                 [''https://example.org/transfert'',
                  ''https://dwh.lequipe.fr/api/edito/rss?path=/Cyclisme/'',
                  ''https://example.org/transfert'',
                  ''https://feeds.feedburner.com/ActualitsDirectvelo''],
                 None),
        w1)"
proof -
  have S: "concat (map (\<lambda>(items, srcURL). nonEmptyLinks items @ [srcURL])
                 (successfulSources toLowerASCII netUp cyclingFeeds sampleWorld)) =
      [''https://example.org/transfert'',
       ''https://dwh.lequipe.fr/api/edito/rss?path=/Cyclisme/'',
       ''https://example.org/transfert'',
       ''https://feeds.feedburner.com/ActualitsDirectvelo'']"
    by code_simp
  from fetchCyclingContext_sources[of toLowerASCII netUp sampleWorld]
  show ?thesis unfolding S .
qed

text \<open>
  Claim C9. The snippet list the Context Assembler returns holds exactly one line per
  retained item, \<open>snippetLine\<close> of the item (\<open>- title (date)\<close>, the date being the
  publication date, or \<open>date inconnue\<close> when that is empty), source by source in
  declaration order and item by item within a source; when no source succeeds it is the
  fallback snippet alone.
\<close>

theorem fetchCyclingContext_snippets:
  "\<exists>sources w1.
     fetchCyclingContext lower net w =
       (Returns (if successfulSources lower net cyclingFeeds w = [] then [fallbackSnippet]
                 else concat (map (\<lambda>(items, srcURL). map snippetLine items)
                                (successfulSources lower net cyclingFeeds w)),
                 sources, None),
        w1)"
proof -
  let ?S = "successfulSources lower net cyclingFeeds w"
  let ?sn = "concat (map (\<lambda>(items, srcURL). map snippetLine items) ?S)"
  from fetchCyclingContext_feeds_eq[of lower net cyclingFeeds "[]" "[]" w]
  obtain so w1 where run:
    "fetchCyclingContext_feeds lower net cyclingFeeds [] [] w = (Returns (?sn, so), w1)"
    by auto
  have iff: "?sn = [] \<longleftrightarrow> ?S = []"
    by (rule successfulSources_empty_iff)
  show ?thesis
  proof (cases "?S = []")
    case True
    with iff have "?sn = []" by blast
    with run True show ?thesis by (simp add: fetchCyclingContext_def)
  next
    case False
    with iff have "?sn \<noteq> []" by blast
    with run False show ?thesis by (simp add: fetchCyclingContext_def)
  qed
qed

theorem fetchCyclingContext_snippets_witness:
  "\<exists>sources w1.
     fetchCyclingContext toLowerASCII netUp sampleWorld =
       (Returns ([''- Transfert: X rejoint Y (Mon, 03 Nov 2025 08:00:00 +0100)'',
                  ''- Mercato : Y signe chez Z (date inconnue)'',
                  ''- Transfert: X rejoint Y (Mon, 03 Nov 2025 08:00:00 +0100)'',
                  ''- Mercato : Y signe chez Z (date inconnue)''],
                 sources, None),
        w1)"
proof -
  have S: "(if successfulSources toLowerASCII netUp cyclingFeeds sampleWorld = []
            then [fallbackSnippet]
            else concat (map (\<lambda>(items, srcURL). map snippetLine items)
                           (successfulSources toLowerASCII netUp cyclingFeeds sampleWorld))) =
      [''- Transfert: X rejoint Y (Mon, 03 Nov 2025 08:00:00 +0100)'',
       ''- Mercato : Y signe chez Z (date inconnue)'',
       ''- Transfert: X rejoint Y (Mon, 03 Nov 2025 08:00:00 +0100)'',
       ''- Mercato : Y signe chez Z (date inconnue)'']"
    by code_simp
  from fetchCyclingContext_snippets[of toLowerASCII netUp sampleWorld]
  show ?thesis unfolding S .
qed

end
